theory Spec2Isabelle
  imports Main "HOL-Library.Word"
begin

section \<open>JavaScript values used by the provider\<close>

text \<open>
  A JavaScript string is a sequence of UTF-16 code units. \<open>js\<close> writes an ASCII literal
  of the source as such a sequence.
\<close>

type_synonym jsstring = "16 word list"

definition js :: "string \<Rightarrow> jsstring" where
  "js s = map of_char s"

text \<open>
  \<open>String.prototype.trim\<close> removes, at both ends, the code units that ECMAScript calls
  WhiteSpace (TAB, VT, FF, the space separators of Unicode, ZWNBSP) or LineTerminator
  (LF, CR, LS, PS).
\<close>

definition isWhiteSpace :: "16 word \<Rightarrow> bool" where
  "isWhiteSpace c \<longleftrightarrow>
     c = 0x9 \<or> c = 0xB \<or> c = 0xC \<or> c = 0x20 \<or> c = 0xA0 \<or> c = 0x1680 \<or>
     (0x2000 \<le> c \<and> c \<le> 0x200A) \<or> c = 0x202F \<or> c = 0x205F \<or> c = 0x3000 \<or>
     c = 0xFEFF \<or> c = 0xA \<or> c = 0xD \<or> c = 0x2028 \<or> c = 0x2029"

definition trim :: "jsstring \<Rightarrow> jsstring" where
  "trim s = rev (dropWhile isWhiteSpace (rev (dropWhile isWhiteSpace s)))"

text \<open>
  Truthiness of a value of type \<open>string | null\<close>: \<open>null\<close> and the empty string are falsy.
\<close>

fun truthy :: "jsstring option \<Rightarrow> bool" where
  "truthy None = False"
| "truthy (Some s) = (s \<noteq> [])"

text \<open>
  \<open>Date.now()\<close> is an integer number of milliseconds; \<open>toString\<close> writes it in decimal,
  with a minus sign below zero.
\<close>

function digits :: "nat \<Rightarrow> jsstring" where
  "digits n = (if n < 10 then [of_nat (48 + n)]
               else digits (n div 10) @ [of_nat (48 + n mod 10)])"
  by pat_completeness auto
termination
  by (relation "measure (\<lambda>n. n)") auto

declare digits.simps [simp del]

definition Number_toString :: "int \<Rightarrow> jsstring" where
  "Number_toString n = (if n < 0 then 0x2D # digits (nat (- n)) else digits (nat n))"

text \<open>
  What a call can throw: the \<open>SyntaxError\<close> of \<open>JSON.parse\<close>, the \<open>InvalidStateError\<close>
  of \<open>SpeechRecognition.start\<close> on an object that is already started, the
  \<open>QuotaExceededError\<close> of \<open>localStorage.setItem\<close> when the store refuses a write, the
  \<open>TypeError\<close> of \<open>JSON.stringify\<close> on a value it cannot serialise, and the rejection
  of an auth-service call, whose payload the provider never inspects.
\<close>

datatype error =
  SyntaxError | InvalidStateError | QuotaExceededError | TypeError | Rejected jsstring

section \<open>Data model\<close>

record User =
  user_id :: jsstring
  email :: jsstring
  firstName :: jsstring
  lastName :: jsstring

record RegisterData =
  reg_firstName :: jsstring
  reg_lastName :: jsstring
  reg_email :: jsstring
  reg_password :: jsstring

text \<open>The fields \<open>id\<close> and \<open>text\<close> of a \<open>TranscriptEntry\<close>.\<close>

record TranscriptEntry =
  entry_id :: jsstring
  entry_text :: jsstring

datatype FontSize = Small | Medium | Large

record CaptionStyle =
  fontSize :: FontSize
  color :: jsstring

text \<open>
  \<open>Partial<CaptionStyle>\<close>: each key is present (\<open>Some\<close>) or absent (\<open>None\<close>).
\<close>

record PartialCaptionStyle =
  fontSize_opt :: "FontSize option"
  color_opt :: "jsstring option"

text \<open>The payload \<open>response.data\<close> of a resolved auth-service call.\<close>

record 'u AuthData =
  data_token :: jsstring
  data_user :: 'u

text \<open>
  One \<open>SpeechRecognition\<close> object. The component body constructs a new one on every
  render and installs handlers that close over the state of that render; of that state
  \<open>onend\<close> reads \<open>isListening\<close>. \<open>started\<close> and \<open>stopping\<close> belong to the capability:
  \<open>start()\<close> begins a session, \<open>stop()\<close> asks a running session to finish, and the end
  event closes it.
\<close>

record recognizer =
  continuous :: bool
  interimResults :: bool
  lang :: jsstring
  closure_isListening :: bool
  started :: bool
  stopping :: bool

record SpeechRecognitionResult =
  isFinal :: bool
  transcript0 :: jsstring

record SpeechRecognitionEvent =
  resultIndex :: nat
  results :: "SpeechRecognitionResult list"

datatype logged = LoggedError error | LoggedText jsstring

text \<open>
  The six \<open>useState\<close> cells of \<open>AuthProvider\<close>, followed by what the component acts on:
  \<open>localStorage\<close> and its capacity (\<open>quota w m k v\<close> holds when the store with content
  \<open>m\<close> accepts the write of \<open>v\<close> under \<open>k\<close>), whether \<open>window\<close> offers a recognition
  constructor, every recognition object constructed so far, the object of the current
  render (\<open>None\<close> is \<open>null\<close>), and the \<open>alert\<close> and \<open>console.error\<close> calls made.
\<close>

record 'u world =
  user :: "'u option"
  token :: "jsstring option"
  transcript :: jsstring
  transcriptHistory :: "TranscriptEntry list"
  isListening :: bool
  captionStyle :: CaptionStyle
  localStorage :: "jsstring \<rightharpoonup> jsstring"
  quota :: "(jsstring \<rightharpoonup> jsstring) \<Rightarrow> jsstring \<Rightarrow> jsstring \<Rightarrow> bool"
  SpeechRecognition :: bool
  recognizers :: "recognizer list"
  recognition :: "nat option"
  alerts :: "jsstring list"
  console :: "(jsstring \<times> logged) list"

section \<open>The recognition capability\<close>

definition start :: "nat \<Rightarrow> 'u world \<Rightarrow> (error + unit) \<times> 'u world" where
  "start i w =
     (if i < length (recognizers w) then
        if started (recognizers w ! i) then (Inl InvalidStateError, w)
        else (Inr (), w\<lparr>recognizers := (recognizers w)[i := (recognizers w ! i)\<lparr>started := True\<rparr>]\<rparr>)
      else (Inr (), w))"

definition stop :: "nat \<Rightarrow> 'u world \<Rightarrow> 'u world" where
  "stop i w =
     (if i < length (recognizers w) \<and> started (recognizers w ! i) then
        w\<lparr>recognizers := (recognizers w)[i := (recognizers w ! i)\<lparr>stopping := True\<rparr>]\<rparr>
      else w)"

section \<open>The component\<close>

definition initial ::
  "bool \<Rightarrow> ((jsstring \<rightharpoonup> jsstring) \<Rightarrow> jsstring \<Rightarrow> jsstring \<Rightarrow> bool) \<Rightarrow> (jsstring \<rightharpoonup> jsstring)
     \<Rightarrow> 'u world" where
  "initial available capacity storage =
     \<lparr>user = None, token = None, transcript = [], transcriptHistory = [],
      isListening = False,
      captionStyle = \<lparr>fontSize = Medium, color = js ''white''\<rparr>,
      localStorage = storage, quota = capacity, SpeechRecognition = available,
      recognizers = [], recognition = None, alerts = [], console = []\<rparr>"

text \<open>
  The component body (lines 78 to 112): when the constructor exists, a new recognition
  object is made and configured, and its handlers capture the state of this render.
\<close>

definition render :: "'u world \<Rightarrow> 'u world" where
  "render w =
     (if SpeechRecognition w then
        w\<lparr>recognizers := recognizers w @
             [\<lparr>continuous = True, interimResults = True, lang = js ''en-US'',
               closure_isListening = isListening w, started = False, stopping = False\<rparr>],
          recognition := Some (length (recognizers w))\<rparr>
      else w\<lparr>recognition := None\<rparr>)"

definition startListening :: "'u world \<Rightarrow> (error + unit) \<times> 'u world" where
  "startListening w =
     (case recognition w of
        None \<Rightarrow>
          (Inr (), w\<lparr>alerts := alerts w @
                       [js ''Speech recognition is not supported in this browser'']\<rparr>)
      | Some r \<Rightarrow> start r (w\<lparr>isListening := True, transcript := []\<rparr>))"

definition stopListening :: "'u world \<Rightarrow> 'u world" where
  "stopListening w =
     (case recognition w of
        None \<Rightarrow> w
      | Some r \<Rightarrow> stop r (w\<lparr>isListening := False\<rparr>))"

text \<open>\<open>now\<close> is the value \<open>Date.now()\<close> returns in this call.\<close>

definition addToHistory :: "int \<Rightarrow> jsstring \<Rightarrow> 'u world \<Rightarrow> 'u world" where
  "addToHistory now text w =
     (if trim text = [] then w
      else w\<lparr>transcriptHistory :=
             take 50 (\<lparr>entry_id = Number_toString now, entry_text = text\<rparr> # transcriptHistory w)\<rparr>)"

definition clearHistory :: "'u world \<Rightarrow> 'u world" where
  "clearHistory w = w\<lparr>transcriptHistory := []\<rparr>"

definition spread :: "CaptionStyle \<Rightarrow> PartialCaptionStyle \<Rightarrow> CaptionStyle" where
  "spread prev style =
     \<lparr>fontSize = (case fontSize_opt style of None \<Rightarrow> fontSize prev | Some f \<Rightarrow> f),
      color = (case color_opt style of None \<Rightarrow> color prev | Some c \<Rightarrow> c)\<rparr>"

definition updateCaptionStyle :: "PartialCaptionStyle \<Rightarrow> 'u world \<Rightarrow> 'u world" where
  "updateCaptionStyle style w = w\<lparr>captionStyle := spread (captionStyle w) style\<rparr>"

text \<open>
  The handlers of a recognition object. In \<open>onresult\<close>, \<open>Date_now i\<close> is the clock reading
  while the loop is at index \<open>i\<close>.
\<close>

function onresult_loop ::
  "(nat \<Rightarrow> int) \<Rightarrow> SpeechRecognitionResult list \<Rightarrow> nat \<Rightarrow> jsstring \<Rightarrow> 'u world
     \<Rightarrow> jsstring \<times> 'u world" where
  "onresult_loop Date_now rs i currentTranscript w =
     (if i < length rs then
        onresult_loop Date_now rs (Suc i) (currentTranscript @ transcript0 (rs ! i))
          (if isFinal (rs ! i) then addToHistory (Date_now i) (transcript0 (rs ! i)) w else w)
      else (currentTranscript, w))"
  by pat_completeness auto
termination
  by (relation "measure (\<lambda>(_, rs, i, _, _). length rs - i)") auto

declare onresult_loop.simps [simp del]

definition onresult :: "(nat \<Rightarrow> int) \<Rightarrow> SpeechRecognitionEvent \<Rightarrow> 'u world \<Rightarrow> 'u world" where
  "onresult Date_now event w =
     (case onresult_loop Date_now (results event) (resultIndex event) [] w of
        (currentTranscript, w') \<Rightarrow> w'\<lparr>transcript := currentTranscript\<rparr>)"

definition onerror :: "jsstring \<Rightarrow> 'u world \<Rightarrow> 'u world" where
  "onerror err w =
     (let w1 = w\<lparr>console := console w @ [(js ''Speech recognition error'', LoggedText err)]\<rparr>
      in if err = js ''not-allowed'' then
           w1\<lparr>alerts := alerts w1 @
                [js ''Microphone access denied. Please allow microphone access to use speech recognition.'']\<rparr>
         else w1)"

definition onend :: "nat \<Rightarrow> 'u world \<Rightarrow> (error + unit) \<times> 'u world" where
  "onend i w = (if closure_isListening (recognizers w ! i) then start i w else (Inr (), w))"

text \<open>
  Hydration, the effect that runs once after the first render. \<open>JSON_parse\<close> is the
  builtin: \<open>Inl\<close> when it throws, otherwise the parsed value (\<open>None\<close> for \<open>null\<close>).
\<close>

definition hydrate :: "(jsstring \<Rightarrow> error + 'u option) \<Rightarrow> 'u world \<Rightarrow> 'u world" where
  "hydrate JSON_parse w =
     (case (localStorage w (js ''token''), localStorage w (js ''user'')) of
        (Some storedToken, Some storedUser) \<Rightarrow>
          if storedToken \<noteq> [] \<and> storedUser \<noteq> [] \<and> storedUser \<noteq> js ''undefined'' then
            (let w1 = w\<lparr>token := Some storedToken\<rparr>
             in case JSON_parse storedUser of
                  Inr parsed \<Rightarrow> w1\<lparr>user := parsed\<rparr>
                | Inl err \<Rightarrow>
                    w1\<lparr>console := console w1 @
                          [(js ''Error parsing stored user data:'', LoggedError err)],
                       localStorage := (localStorage w1)(js ''token'' := None, js ''user'' := None)\<rparr>)
          else w
      | _ \<Rightarrow> w)"

text \<open>
  \<open>localStorage.setItem\<close>: the write happens, or the store refuses it and the call throws
  with the store as it was.
\<close>

definition setItem :: "jsstring \<Rightarrow> jsstring \<Rightarrow> 'u world \<Rightarrow> (error + unit) \<times> 'u world" where
  "setItem key v w =
     (if quota w (localStorage w) key v then
        (Inr (), w\<lparr>localStorage := (localStorage w)(key \<mapsto> v)\<rparr>)
      else (Inl QuotaExceededError, w))"

text \<open>
  \<open>login\<close> and \<open>register\<close>. Everything after the auth call sits in the same \<open>try\<close>, whose
  \<open>catch\<close> throws the error on: the two state updates, the write of the token, the
  serialisation of the user (\<open>JSON_stringify\<close> is the builtin: \<open>Inl\<close> when it throws) and
  the write of the result. A step that throws ends the call with what was done so far.
\<close>

definition login ::
  "(jsstring \<Rightarrow> jsstring \<Rightarrow> error + 'u AuthData) \<Rightarrow> ('u \<Rightarrow> error + jsstring) \<Rightarrow> jsstring \<Rightarrow> jsstring
     \<Rightarrow> 'u world \<Rightarrow> (error + unit) \<times> 'u world" where
  "login authService_login JSON_stringify email' password w =
     (case authService_login email' password of
        Inl err \<Rightarrow> (Inl err, w)
      | Inr d \<Rightarrow>
          (case setItem (js ''token'') (data_token d)
                  (w\<lparr>token := Some (data_token d), user := Some (data_user d)\<rparr>) of
             (Inl err, w1) \<Rightarrow> (Inl err, w1)
           | (Inr _, w1) \<Rightarrow>
               (case JSON_stringify (data_user d) of
                  Inl err \<Rightarrow> (Inl err, w1)
                | Inr serialised \<Rightarrow> setItem (js ''user'') serialised w1)))"

definition register ::
  "(RegisterData \<Rightarrow> error + 'u AuthData) \<Rightarrow> ('u \<Rightarrow> error + jsstring) \<Rightarrow> RegisterData
     \<Rightarrow> 'u world \<Rightarrow> (error + unit) \<times> 'u world" where
  "register authService_register JSON_stringify userData w =
     (case authService_register userData of
        Inl err \<Rightarrow> (Inl err, w)
      | Inr d \<Rightarrow>
          (case setItem (js ''token'') (data_token d)
                  (w\<lparr>token := Some (data_token d), user := Some (data_user d)\<rparr>) of
             (Inl err, w1) \<Rightarrow> (Inl err, w1)
           | (Inr _, w1) \<Rightarrow>
               (case JSON_stringify (data_user d) of
                  Inl err \<Rightarrow> (Inl err, w1)
                | Inr serialised \<Rightarrow> setItem (js ''user'') serialised w1)))"

definition logout :: "'u world \<Rightarrow> 'u world" where
  "logout w =
     w\<lparr>user := None, token := None,
       localStorage := (localStorage w)(js ''token'' := None, js ''user'' := None)\<rparr>"

definition isAuthenticated :: "'u world \<Rightarrow> bool" where
  "isAuthenticated w = truthy (token w)"

section \<open>Runs of the provider\<close>

text \<open>
  Mounting renders the initial state and runs hydration. Afterwards the provider reacts
  to events: calls of its operations by the interface, the settling of an auth-service
  call (the event carries what the call settled with), events of a recognition object,
  and re-renders. A handler that throws leaves the state it had reached. A run ends
  before the provider unmounts: the cleanup functions of the two effects are not part
  of it.
\<close>

definition mount ::
  "(jsstring \<Rightarrow> error + 'u option) \<Rightarrow> bool
     \<Rightarrow> ((jsstring \<rightharpoonup> jsstring) \<Rightarrow> jsstring \<Rightarrow> jsstring \<Rightarrow> bool) \<Rightarrow> (jsstring \<rightharpoonup> jsstring)
     \<Rightarrow> 'u world" where
  "mount JSON_parse available capacity storage =
     hydrate JSON_parse (render (initial available capacity storage))"

datatype 'u event =
    Render
  | StartListening
  | StopListening
  | ClearHistory
  | UpdateCaptionStyle PartialCaptionStyle
  | Login jsstring jsstring "error + 'u AuthData"
  | Register RegisterData "error + 'u AuthData"
  | Logout
  | RecognitionResult nat "nat \<Rightarrow> int" SpeechRecognitionEvent
  | RecognitionError nat jsstring
  | RecognitionEnd nat

definition ended :: "nat \<Rightarrow> 'u world \<Rightarrow> 'u world" where
  "ended i w =
     w\<lparr>recognizers := (recognizers w)[i := (recognizers w ! i)\<lparr>started := False, stopping := False\<rparr>]\<rparr>"

fun step :: "('u \<Rightarrow> error + jsstring) \<Rightarrow> 'u world \<Rightarrow> 'u event \<Rightarrow> 'u world" where
  "step JSON_stringify w Render = render w"
| "step JSON_stringify w StartListening = snd (startListening w)"
| "step JSON_stringify w StopListening = stopListening w"
| "step JSON_stringify w ClearHistory = clearHistory w"
| "step JSON_stringify w (UpdateCaptionStyle style) = updateCaptionStyle style w"
| "step JSON_stringify w (Login email' password outcome) =
     snd (login (\<lambda>_ _. outcome) JSON_stringify email' password w)"
| "step JSON_stringify w (Register userData outcome) =
     snd (register (\<lambda>_. outcome) JSON_stringify userData w)"
| "step JSON_stringify w Logout = logout w"
| "step JSON_stringify w (RecognitionResult i Date_now event) =
     (if i < length (recognizers w) then onresult Date_now event w else w)"
| "step JSON_stringify w (RecognitionError i err) =
     (if i < length (recognizers w) then onerror err w else w)"
| "step JSON_stringify w (RecognitionEnd i) =
     (if i < length (recognizers w) then snd (onend i (ended i w)) else w)"

definition run ::
  "('u \<Rightarrow> error + jsstring) \<Rightarrow> 'u event list \<Rightarrow> 'u world \<Rightarrow> 'u world" where
  "run JSON_stringify evs w = foldl (step JSON_stringify) w evs"

section \<open>Sequences of appended results\<close>

text \<open>
  The entry \<open>addToHistory\<close> builds from a clock reading and a text, and a sequence of
  \<open>addToHistory\<close> calls, oldest first.
\<close>

definition entry :: "int \<times> jsstring \<Rightarrow> TranscriptEntry" where
  "entry x = \<lparr>entry_id = Number_toString (fst x), entry_text = snd x\<rparr>"

definition appendAll :: "(int \<times> jsstring) list \<Rightarrow> 'u world \<Rightarrow> 'u world" where
  "appendAll xs w = foldl (\<lambda>w x. addToHistory (fst x) (snd x) w) w xs"

text \<open>
  The calls of \<open>addToHistory\<close> that the loop of \<open>onresult\<close> makes from index \<open>i\<close> on, each
  with the clock reading it would take and its text.
\<close>

definition finalized ::
  "(nat \<Rightarrow> int) \<Rightarrow> SpeechRecognitionResult list \<Rightarrow> nat \<Rightarrow> (int \<times> jsstring) list" where
  "finalized Date_now rs i =
     map (\<lambda>j. (Date_now j, transcript0 (rs ! j))) (filter (\<lambda>j. isFinal (rs ! j)) [i..<length rs])"

text \<open>
  The appends of a run: the calls of \<open>addToHistory\<close> that get past the whitespace test,
  each as the clock reading it takes and the text it stores, in the order of the run.
  Only a result event of an existing recognition object makes any.
\<close>

definition appends_of :: "'u world \<Rightarrow> 'u event \<Rightarrow> (int \<times> jsstring) list" where
  "appends_of w ev =
     (case ev of
        RecognitionResult i Date_now event \<Rightarrow>
          if i < length (recognizers w) then
            filter (\<lambda>x. trim (snd x) \<noteq> [])
              (finalized Date_now (results event) (resultIndex event))
          else []
      | _ \<Rightarrow> [])"

fun appends ::
  "('u \<Rightarrow> error + jsstring) \<Rightarrow> 'u world \<Rightarrow> 'u event list \<Rightarrow> (int \<times> jsstring) list" where
  "appends JSON_stringify w [] = []"
| "appends JSON_stringify w (ev # evs) =
     appends_of w ev @ appends JSON_stringify (step JSON_stringify w ev) evs"

text \<open>The number a decimal numeral denotes; it inverts \<open>digits\<close>.\<close>

definition decimal_value :: "jsstring \<Rightarrow> nat" where
  "decimal_value s = foldl (\<lambda>a c. 10 * a + (unat c - 48)) 0 s"

section \<open>Concrete environments\<close>

text \<open>
  A user, the serialisation of a user whose fields need no escaping, a parser that
  accepts exactly one text, a store whose \<open>user\<close> entry is not JSON, a store without a
  limit and one that takes nothing more.
\<close>

definition alice :: User where
  "alice = \<lparr>user_id = js ''1'', email = js ''ada@example.org'',
            firstName = js ''Ada'', lastName = js ''Lovelace''\<rparr>"

definition User_json :: "User \<Rightarrow> jsstring" where
  \<open>User_json u =
     js ''{"id":"'' @ user_id u @ js ''","email":"'' @ email u @
     js ''","firstName":"'' @ firstName u @ js ''","lastName":"'' @ lastName u @ js ''"}''\<close>

definition stringify_User :: "User \<Rightarrow> error + jsstring" where
  "stringify_User u = Inr (User_json u)"

definition unlimited :: "(jsstring \<rightharpoonup> jsstring) \<Rightarrow> jsstring \<Rightarrow> jsstring \<Rightarrow> bool" where
  "unlimited m key v = True"

definition exhausted :: "(jsstring \<rightharpoonup> jsstring) \<Rightarrow> jsstring \<Rightarrow> jsstring \<Rightarrow> bool" where
  "exhausted m key v = False"

definition parse_only :: "jsstring \<Rightarrow> 'u \<Rightarrow> jsstring \<Rightarrow> error + 'u option" where
  "parse_only accepted v s = (if s = accepted then Inr (Some v) else Inl SyntaxError)"

definition corrupt_storage :: "jsstring \<rightharpoonup> jsstring" where
  "corrupt_storage = [js ''token'' \<mapsto> js ''abc'', js ''user'' \<mapsto> js ''{'']"

definition password_service :: "jsstring \<Rightarrow> jsstring \<Rightarrow> error + User AuthData" where
  "password_service e p =
     (if p = js ''secret'' then Inr \<lparr>data_token = js ''abc'', data_user = alice\<rparr>
      else Inl (Rejected (js ''401'')))"

definition idle :: "User world" where
  "idle = mount (parse_only (User_json alice) alice) True unlimited Map.empty"

definition unsupported :: "User world" where
  "unsupported = mount (parse_only (User_json alice) alice) False unlimited Map.empty"

text \<open>
  The provider after \<open>startListening\<close> from the mounted state and the re-render that the
  state change causes; a result event with two final results; a clock that does not
  advance during the loop of \<open>onresult\<close>, and one that does.
\<close>

definition listening :: "User world" where
  "listening = run stringify_User [StartListening, Render] idle"

definition two_finals :: SpeechRecognitionEvent where
  "two_finals =
     \<lparr>resultIndex = 0,
      results = [\<lparr>isFinal = True, transcript0 = js ''hello''\<rparr>,
                 \<lparr>isFinal = True, transcript0 = js '' world''\<rparr>]\<rparr>"

definition same_millisecond :: "nat \<Rightarrow> int" where
  "same_millisecond i = 1700000000000"

definition ticking :: "nat \<Rightarrow> int" where
  "ticking i = 1700000000000 + int i"

section \<open>Invariants\<close>

text \<open>
  What holds of the provider in an environment without a recognition constructor, and
  what holds of a history given the appends \<open>xs\<close> made so far.
\<close>

definition absent :: "'u world \<Rightarrow> bool" where
  "absent w \<longleftrightarrow> \<not> SpeechRecognition w \<and> recognition w = None \<and> recognizers w = [] \<and> \<not> isListening w"

definition history_ok :: "(int \<times> jsstring) list \<Rightarrow> TranscriptEntry list \<Rightarrow> bool" where
  "history_ok xs h \<longleftrightarrow>
     length h \<le> 50 \<and>
     (\<forall>e \<in> set h. \<exists>x \<in> set xs. e = entry x \<and> trim (snd x) \<noteq> []) \<and>
     (distinct (map fst xs) \<longrightarrow> distinct (map entry_id h))"

section \<open>Decimal numerals\<close>

lemma digits_small: "n < 10 \<Longrightarrow> digits n = [of_nat (48 + n)]"
  by (subst digits.simps) simp

lemma digits_large:
  "\<not> n < 10 \<Longrightarrow> digits n = digits (n div 10) @ [of_nat (48 + n mod 10)]"
  by (subst digits.simps) simp

lemma unat_digit: "n < 10 \<Longrightarrow> unat (of_nat (48 + n) :: 16 word) = 48 + n"
proof -
  assume "n < 10"
  then have "(48 + n) mod 2 ^ LENGTH(16) = 48 + n" by simp
  then show ?thesis by (simp only: unat_of_nat)
qed

lemma decimal_value_digits: "decimal_value (digits n) = n"
proof (induction n rule: digits.induct)
  case (1 n)
  show ?case
  proof (cases "n < 10")
    case True
    then have "digits n = [of_nat (48 + n)]" by (subst digits.simps) simp
    with True show ?thesis by (simp add: decimal_value_def unat_digit del: of_nat_add)
  next
    case False
    have "n mod 10 < 10" by simp
    then have u: "unat (of_nat (48 + n mod 10) :: 16 word) = 48 + n mod 10"
      by (rule unat_digit)
    have "decimal_value (digits n) = 10 * decimal_value (digits (n div 10)) + n mod 10"
      using False u by (subst digits.simps) (simp add: decimal_value_def del: of_nat_add)
    with 1 False show ?thesis by simp
  qed
qed

lemma digits_inj: "digits m = digits n \<Longrightarrow> m = n"
  by (metis decimal_value_digits)

lemma digits_are_digits: "c \<in> set (digits n) \<Longrightarrow> 48 \<le> unat c"
proof (induction n arbitrary: c rule: digits.induct)
  case (1 n)
  show ?case
  proof (cases "n < 10")
    case True
    with 1(2) have "c = of_nat (48 + n)" by (subst (asm) digits.simps) simp
    with True show ?thesis by (simp add: unat_digit del: of_nat_add)
  next
    case False
    have "n mod 10 < 10" by simp
    then have u: "unat (of_nat (48 + n mod 10) :: 16 word) = 48 + n mod 10"
      by (rule unat_digit)
    from 1(2) False have "c \<in> set (digits (n div 10)) \<or> c = of_nat (48 + n mod 10)"
      by (subst (asm) digits.simps) (auto simp del: of_nat_add)
    then show ?thesis
      using 1(1) False u by auto
  qed
qed

lemma digits_no_minus: "digits n \<noteq> 0x2D # s"
proof
  assume "digits n = 0x2D # s"
  then have "(0x2D :: 16 word) \<in> set (digits n)" by simp
  then have "48 \<le> unat (0x2D :: 16 word)" by (rule digits_are_digits)
  then show False by simp
qed

lemma Number_toString_inj: "Number_toString m = Number_toString n \<Longrightarrow> m = n"
proof -
  assume eq: "Number_toString m = Number_toString n"
  consider "m < 0" "n < 0" | "m < 0" "\<not> n < 0" | "\<not> m < 0" "n < 0" | "\<not> m < 0" "\<not> n < 0"
    by blast
  then show ?thesis
  proof cases
    case 1
    with eq have "digits (nat (- m)) = digits (nat (- n))" by (simp add: Number_toString_def)
    then have "nat (- m) = nat (- n)" by (rule digits_inj)
    with 1 show ?thesis by simp
  next
    case 2
    with eq have "digits (nat n) = 0x2D # digits (nat (- m))" by (simp add: Number_toString_def)
    then show ?thesis by (simp add: digits_no_minus)
  next
    case 3
    with eq have "digits (nat m) = 0x2D # digits (nat (- n))" by (simp add: Number_toString_def)
    then show ?thesis by (simp add: digits_no_minus)
  next
    case 4
    with eq have "digits (nat m) = digits (nat n)" by (simp add: Number_toString_def)
    then have "nat m = nat n" by (rule digits_inj)
    with 4 show ?thesis by simp
  qed
qed

section \<open>Whitespace and trimming\<close>

lemma dropWhile_all: "(\<forall>x \<in> set (dropWhile P s). P x) \<longleftrightarrow> (\<forall>c \<in> set s. P c)"
  by (induction s) auto

lemma trim_empty_iff: "trim s = [] \<longleftrightarrow> (\<forall>c \<in> set s. isWhiteSpace c)"
  by (simp add: trim_def dropWhile_all)

section \<open>The history as a function of the appended results\<close>

lemma take_append_take: "take n (xs @ take n ys) = take n (xs @ ys)"
  by (simp add: min_def)

lemma history_addToHistory:
  "transcriptHistory (addToHistory now text w) =
     (if trim text = [] then transcriptHistory w
      else take 50 (entry (now, text) # transcriptHistory w))"
  by (simp add: addToHistory_def entry_def)

lemma history_appendAll:
  "length (transcriptHistory w) \<le> 50 \<Longrightarrow>
   transcriptHistory (appendAll xs w) =
     take 50 (rev (map entry (filter (\<lambda>x. trim (snd x) \<noteq> []) xs)) @ transcriptHistory w)"
proof (induction xs arbitrary: w)
  case Nil
  then show ?case by (simp add: appendAll_def)
next
  case (Cons x xs)
  let ?keep = "filter (\<lambda>x. trim (snd x) \<noteq> [])"
  let ?w1 = "addToHistory (fst x) (snd x) w"
  have unfold: "appendAll (x # xs) w = appendAll xs ?w1"
    by (simp add: appendAll_def)
  show ?case
  proof (cases "trim (snd x) = []")
    case True
    then have "?w1 = w" by (simp add: addToHistory_def)
    with Cons.IH [of w] Cons.prems True unfold show ?thesis by simp
  next
    case False
    have h1: "transcriptHistory ?w1 = take 50 (entry x # transcriptHistory w)"
      using False by (simp only: history_addToHistory prod.collapse if_False)
    have "length (transcriptHistory ?w1) \<le> 50"
      by (simp only: h1 length_take min.cobounded2)
    then have "transcriptHistory (appendAll xs ?w1) =
        take 50 (rev (map entry (?keep xs)) @ take 50 (entry x # transcriptHistory w))"
      using Cons.IH [of ?w1] by (simp only: h1)
    also have "\<dots> = take 50 (rev (map entry (?keep xs)) @ entry x # transcriptHistory w)"
      by (rule take_append_take)
    also have "\<dots> = take 50 (rev (map entry (?keep (x # xs))) @ transcriptHistory w)"
      using False by simp
    finally show ?thesis by (simp only: unfold)
  qed
qed

lemma appendAll_Cons: "appendAll (x # xs) w = appendAll xs (addToHistory (fst x) (snd x) w)"
  by (simp add: appendAll_def)

lemma appendAll_Nil: "appendAll [] w = w"
  by (simp add: appendAll_def)

lemma finalized_step:
  "i < length rs \<Longrightarrow>
   finalized Date_now rs i =
     (if isFinal (rs ! i) then [(Date_now i, transcript0 (rs ! i))] else []) @
     finalized Date_now rs (Suc i)"
  by (simp add: finalized_def upt_conv_Cons)

lemma finalized_done: "\<not> i < length rs \<Longrightarrow> finalized Date_now rs i = []"
  by (simp add: finalized_def)

lemma onresult_loop_world:
  "snd (onresult_loop Date_now rs i cur w) = appendAll (finalized Date_now rs i) w"
proof (induction Date_now rs i cur w rule: onresult_loop.induct)
  case (1 Date_now rs i cur w)
  show ?case
  proof (cases "i < length rs")
    case True
    then show ?thesis
      using 1 by (subst onresult_loop.simps) (simp add: finalized_step appendAll_Cons)
  next
    case False
    then show ?thesis
      by (subst onresult_loop.simps) (simp add: finalized_done appendAll_Nil)
  qed
qed

lemma history_onresult:
  "transcriptHistory (onresult Date_now event w) =
     transcriptHistory (appendAll (finalized Date_now (results event) (resultIndex event)) w)"
proof -
  obtain cur w' where r: "onresult_loop Date_now (results event) (resultIndex event) [] w = (cur, w')"
    by (cases "onresult_loop Date_now (results event) (resultIndex event) [] w")
  then have "w' = appendAll (finalized Date_now (results event) (resultIndex event)) w"
    using onresult_loop_world [of Date_now "results event" "resultIndex event" "[]" w] by simp
  with r show ?thesis by (simp add: onresult_def)
qed

section \<open>Entries of a reachable history\<close>

lemma run_snoc: "run JSON_stringify (evs @ [ev]) w = step JSON_stringify (run JSON_stringify evs w) ev"
  by (simp add: run_def)

lemma run_Cons: "run JSON_stringify (ev # evs) w = run JSON_stringify evs (step JSON_stringify w ev)"
  by (simp add: run_def)

lemma history_ok_Nil: "history_ok xs []"
  by (simp add: history_ok_def)

lemma history_ok_more: "history_ok xs h \<Longrightarrow> history_ok (xs @ ys) h"
  by (auto simp: history_ok_def)

lemma entry_id_entry: "map entry_id (map entry xs) = map Number_toString (map fst xs)"
  by (simp add: entry_def)

lemma distinct_Number_toString: "distinct ns \<Longrightarrow> distinct (map Number_toString ns)"
  by (simp add: distinct_map inj_on_def) (blast dest: Number_toString_inj)

lemma history_ok_append:
  assumes ok: "history_ok xs h" and keep: "\<forall>y \<in> set ys. trim (snd y) \<noteq> []"
  shows "history_ok (xs @ ys) (take 50 (rev (map entry ys) @ h))"
proof -
  let ?h = "take 50 (rev (map entry ys) @ h)"
  have len: "length ?h \<le> 50" by simp
  have mem: "\<exists>x \<in> set (xs @ ys). e = entry x \<and> trim (snd x) \<noteq> []"
    if "e \<in> set ?h" for e
  proof -
    from that have "e \<in> set (map entry ys) \<or> e \<in> set h"
      by (auto dest: in_set_takeD)
    then show ?thesis
    proof
      assume "e \<in> set (map entry ys)"
      then obtain y where "y \<in> set ys" "e = entry y" by auto
      with keep show ?thesis by auto
    next
      assume "e \<in> set h"
      with ok show ?thesis by (auto simp: history_ok_def)
    qed
  qed
  have dis: "distinct (map entry_id ?h)" if d: "distinct (map fst (xs @ ys))"
  proof -
    from d have d1: "distinct (map fst xs)" and d2: "distinct (map fst ys)"
      and d3: "set (map fst xs) \<inter> set (map fst ys) = {}" by auto
    have a: "distinct (map entry_id h)" using ok d1 by (simp add: history_ok_def)
    have b: "distinct (map entry_id (map entry ys))"
      using d2 by (simp only: entry_id_entry distinct_Number_toString)
    have c: "set (map entry_id (map entry ys)) \<inter> set (map entry_id h) = {}"
    proof (rule ccontr)
      assume "\<not> ?thesis"
      then obtain s where s1: "s \<in> set (map entry_id (map entry ys))"
        and s2: "s \<in> set (map entry_id h)" by blast
      from s1 obtain m where m: "m \<in> set (map fst ys)" "s = Number_toString m"
        by (auto simp: entry_def)
      from s2 obtain e where e: "e \<in> set h" "s = entry_id e" by auto
      with ok obtain x where x: "x \<in> set xs" "e = entry x"
        by (auto simp: history_ok_def)
      with e have n: "fst x \<in> set (map fst xs)" "s = Number_toString (fst x)"
        by (auto simp: entry_def)
      from m n have "m = fst x" by (auto dest: Number_toString_inj)
      with m n d3 show False by auto
    qed
    have "distinct (map entry_id (rev (map entry ys) @ h))"
      using a b c by (simp add: rev_map [symmetric] del: map_map)
    then have "distinct (take 50 (map entry_id (rev (map entry ys) @ h)))"
      by (rule distinct_take)
    then show ?thesis by (simp only: take_map)
  qed
  show ?thesis
    unfolding history_ok_def using len mem dis by blast
qed

lemma history_step_other:
  "ev \<noteq> ClearHistory \<Longrightarrow> \<forall>i D event. ev \<noteq> RecognitionResult i D event \<Longrightarrow>
   transcriptHistory (step JSON_stringify w ev) = transcriptHistory w"
  by (cases ev)
     (simp_all add: render_def startListening_def stopListening_def start_def stop_def
        updateCaptionStyle_def login_def register_def setItem_def logout_def onerror_def
        onend_def ended_def Let_def split: sum.splits option.splits)

lemma appends_of_other:
  "\<forall>i D event. ev \<noteq> RecognitionResult i D event \<Longrightarrow> appends_of w ev = []"
  by (cases ev) (simp_all add: appends_of_def)

lemma history_ok_step:
  assumes ok: "history_ok xs (transcriptHistory w)"
  shows "history_ok (xs @ appends_of w ev) (transcriptHistory (step JSON_stringify w ev))"
proof -
  consider (clear) "ev = ClearHistory"
    | (result) i Date_now event where "ev = RecognitionResult i Date_now event"
    | (other) "ev \<noteq> ClearHistory" "\<forall>i D event. ev \<noteq> RecognitionResult i D event"
    by blast
  then show ?thesis
  proof cases
    case clear
    then show ?thesis by (simp add: clearHistory_def history_ok_Nil)
  next
    case result
    let ?ys = "filter (\<lambda>x. trim (snd x) \<noteq> [])
                 (finalized Date_now (results event) (resultIndex event))"
    show ?thesis
    proof (cases "i < length (recognizers w)")
      case True
      have r: "appends_of w ev = ?ys"
        using result True by (simp add: appends_of_def)
      have len: "length (transcriptHistory w) \<le> 50"
        using ok by (simp add: history_ok_def)
      have "transcriptHistory (step JSON_stringify w ev) =
              take 50 (rev (map entry ?ys) @ transcriptHistory w)"
        using result True len by (simp add: history_onresult history_appendAll)
      moreover have
        "history_ok (xs @ ?ys) (take 50 (rev (map entry ?ys) @ transcriptHistory w))"
        by (rule history_ok_append [OF ok]) simp
      ultimately show ?thesis by (simp only: r)
    next
      case False
      with result have "transcriptHistory (step JSON_stringify w ev) = transcriptHistory w"
        by simp
      with ok show ?thesis by (simp add: history_ok_more)
    qed
  next
    case other
    then have "transcriptHistory (step JSON_stringify w ev) = transcriptHistory w"
      by (rule history_step_other)
    with ok show ?thesis by (simp add: history_ok_more)
  qed
qed

lemma history_ok_run:
  "history_ok xs (transcriptHistory w) \<Longrightarrow>
   history_ok (xs @ appends JSON_stringify w evs) (transcriptHistory (run JSON_stringify evs w))"
proof (induction evs arbitrary: xs w)
  case Nil
  then show ?case by (simp add: run_def)
next
  case (Cons ev evs)
  from Cons.prems have
    "history_ok (xs @ appends_of w ev) (transcriptHistory (step JSON_stringify w ev))"
    by (rule history_ok_step)
  then have "history_ok ((xs @ appends_of w ev) @ appends JSON_stringify (step JSON_stringify w ev) evs)
               (transcriptHistory (run JSON_stringify evs (step JSON_stringify w ev)))"
    by (rule Cons.IH)
  then show ?case by (simp add: run_Cons)
qed

lemma history_mount: "transcriptHistory (mount JSON_parse available capacity storage) = []"
  by (simp add: mount_def hydrate_def render_def initial_def Let_def split: option.splits sum.splits)

section \<open>Without the recognition capability\<close>

lemma absent_mount: "absent (mount JSON_parse False capacity storage)"
  by (simp add: absent_def mount_def hydrate_def render_def initial_def Let_def
        split: option.splits sum.splits)

lemma absent_step: "absent w \<Longrightarrow> absent (step JSON_stringify w ev)"
  by (cases ev)
     (simp_all add: absent_def render_def startListening_def stopListening_def clearHistory_def
        updateCaptionStyle_def login_def register_def setItem_def logout_def Let_def
        split: sum.splits)

lemma absent_run: "absent w \<Longrightarrow> absent (run JSON_stringify evs w)"
  by (induction evs rule: rev_induct) (simp_all add: run_snoc absent_step, simp add: run_def)

section \<open>A store that takes nothing more\<close>

lemma login_exhausted_store:
  "fst (login password_service stringify_User (js ''ada@example.org'') (js ''secret'')
      (mount (parse_only (User_json alice) alice) True exhausted Map.empty))
     = Inl QuotaExceededError \<and>
   token (snd (login password_service stringify_User (js ''ada@example.org'') (js ''secret'')
      (mount (parse_only (User_json alice) alice) True exhausted Map.empty)))
     = Some (js ''abc'') \<and>
   user (snd (login password_service stringify_User (js ''ada@example.org'') (js ''secret'')
      (mount (parse_only (User_json alice) alice) True exhausted Map.empty)))
     = Some alice \<and>
   localStorage (snd (login password_service stringify_User (js ''ada@example.org'') (js ''secret'')
      (mount (parse_only (User_json alice) alice) True exhausted Map.empty))) (js ''token'')
     = None"
  by (simp add: login_def setItem_def password_service_def mount_def hydrate_def render_def
        initial_def exhausted_def js_def)

section \<open>A concrete listening session\<close>

lemma listening_recognizers:
  "recognizers listening =
     [\<lparr>continuous = True, interimResults = True, lang = js ''en-US'',
       closure_isListening = False, started = True, stopping = False\<rparr>,
      \<lparr>continuous = True, interimResults = True, lang = js ''en-US'',
       closure_isListening = True, started = False, stopping = False\<rparr>]"
  by (simp add: listening_def run_def idle_def mount_def hydrate_def render_def initial_def
        startListening_def start_def)

lemma listening_state:
  "isListening listening \<and> transcriptHistory listening = [] \<and> recognition listening = Some 1"
  by (simp add: listening_def run_def idle_def mount_def hydrate_def render_def initial_def
        startListening_def start_def)

lemma finalized_two_finals:
  "finalized D (results two_finals) (resultIndex two_finals) =
     [(D 0, js ''hello''), (D 1, js '' world'')]"
  by (simp add: finalized_def two_finals_def upt_rec)

lemma stamp0: "Number_toString 1700000000000 = js ''1700000000000''"
  by (simp add: Number_toString_def digits_small digits_large js_def)

lemma stamp1: "Number_toString 1700000000001 = js ''1700000000001''"
  by (simp add: Number_toString_def digits_small digits_large js_def)

lemma nonblank: "trim (js ''hello'') \<noteq> [] \<and> trim (js '' world'') = js ''world''"
  by (simp add: trim_def js_def isWhiteSpace_def)

lemma history_two_finals:
  "transcriptHistory (step stringify_User listening (RecognitionResult 0 D two_finals)) =
     [entry (D 1, js '' world''), entry (D 0, js ''hello'')]"
  using nonblank
  by (simp add: listening_recognizers listening_state history_onresult history_appendAll
        finalized_two_finals js_def)

lemma onend_restarts_iff:
  "i < length (recognizers w) \<Longrightarrow>
   started (recognizers (snd (onend i (ended i w))) ! i) = closure_isListening (recognizers w ! i)"
  by (simp add: onend_def ended_def start_def)

section \<open>Caption engine: history, style, whitespace\<close>

text \<open>
  C10. In every state, \<open>clearHistory\<close> sets the transcript history to the empty sequence
  and leaves every other field unchanged (transcript, listening flag, caption style,
  user, token among them); calling it twice equals calling it once.
\<close>

theorem clearHistory_frame:
  "clearHistory w = w\<lparr>transcriptHistory := []\<rparr> \<and>
   transcriptHistory (clearHistory w) = [] \<and>
   transcript (clearHistory w) = transcript w \<and>
   isListening (clearHistory w) = isListening w \<and>
   captionStyle (clearHistory w) = captionStyle w \<and>
   user (clearHistory w) = user w \<and>
   token (clearHistory w) = token w \<and>
   clearHistory (clearHistory w) = clearHistory w"
  by (simp add: clearHistory_def)

text \<open>
  C7. For every current caption style, \<open>updateCaptionStyle\<close> applied to a partial that
  holds only a color yields a style with that color and the former font size.
\<close>

theorem updateCaptionStyle_color_only:
  "color (captionStyle (updateCaptionStyle \<lparr>fontSize_opt = None, color_opt = Some c\<rparr> w)) = c \<and>
   fontSize (captionStyle (updateCaptionStyle \<lparr>fontSize_opt = None, color_opt = Some c\<rparr> w))
     = fontSize (captionStyle w)"
  by (simp add: updateCaptionStyle_def spread_def)

text \<open>
  C6. For every finalized result whose text consists entirely of whitespace, the append
  operation leaves the transcript history (indeed the whole state) unchanged.
\<close>

theorem addToHistory_whitespace:
  assumes "\<forall>c \<in> set text. isWhiteSpace c"
  shows "addToHistory now text w = w \<and>
         transcriptHistory (addToHistory now text w) = transcriptHistory w"
  using assms by (simp add: addToHistory_def trim_empty_iff)

theorem addToHistory_whitespace_witness:
  "addToHistory 1700000000123 (js '' '') idle = idle \<and>
   transcriptHistory (addToHistory 1700000000123 (js '' '') idle) = transcriptHistory idle"
  using addToHistory_whitespace [of "js '' ''" 1700000000123 idle]
  by (simp add: js_def isWhiteSpace_def)

text \<open>
  C2. Appending \<open>N\<close> finalized results with non-whitespace text to an empty history: for
  \<open>N > 50\<close> the history has length exactly 50 and holds the 50 most recently appended
  entries, newest first; for \<open>N \<le> 50\<close> it holds all \<open>N\<close> entries, newest first.
\<close>

theorem history_capped_newest_first:
  assumes "\<forall>x \<in> set xs. trim (snd x) \<noteq> []" and "transcriptHistory w = []"
  shows "(50 < length xs \<longrightarrow>
            length (transcriptHistory (appendAll xs w)) = 50 \<and>
            transcriptHistory (appendAll xs w) = rev (map entry (drop (length xs - 50) xs))) \<and>
         (length xs \<le> 50 \<longrightarrow> transcriptHistory (appendAll xs w) = rev (map entry xs))"
proof -
  have keep: "filter (\<lambda>x. trim (snd x) \<noteq> []) xs = xs"
    using assms(1) by (simp add: filter_id_conv)
  have "transcriptHistory (appendAll xs w) = take 50 (rev (map entry xs))"
    using history_appendAll [of w xs] assms(2) by (simp add: keep)
  then show ?thesis
    by (simp add: take_rev drop_map)
qed

theorem history_capped_newest_first_witness:
  "transcriptHistory idle = [] \<and>
   length (transcriptHistory
     (appendAll (map (\<lambda>n. (1700000000000 + int n, js ''hello'')) [0..<51]) idle)) = 50 \<and>
   transcriptHistory (appendAll (map (\<lambda>n. (1700000000000 + int n, js ''hello'')) [0..<51]) idle)
     = rev (map (\<lambda>n. entry (1700000000000 + int n, js ''hello'')) [1..<51])"
proof -
  have a: "\<forall>x \<in> set (map (\<lambda>n. (1700000000000 + int n, js ''hello'')) [0..<51]). trim (snd x) \<noteq> []"
    by (simp add: trim_def js_def isWhiteSpace_def)
  have b: "transcriptHistory idle = []"
    by (simp add: idle_def mount_def hydrate_def render_def initial_def js_def)
  have c: "drop 1 [0..<51] = [1..<51]"
    by (simp add: drop_upt)
  show ?thesis
    using history_capped_newest_first [OF a b] a b c
    by (simp add: drop_map comp_def del: upt_Suc)
qed

text \<open>
  C3, as the code has it. Every entry of a reachable history has a text with a
  non-whitespace character, and it is the entry of one append of the run: its text is the
  text of that append as received, not trimmed, and its id is the decimal numeral of the
  clock reading that append took. When the readings taken by the appends of the run are
  pairwise distinct, so are the ids of the history.
\<close>

theorem history_entries:
  "(\<forall>e \<in> set (transcriptHistory
        (run JSON_stringify evs (mount JSON_parse available capacity storage))).
      trim (entry_text e) \<noteq> [] \<and>
      (\<exists>x \<in> set (appends JSON_stringify (mount JSON_parse available capacity storage) evs).
         entry_id e = Number_toString (fst x) \<and> entry_text e = snd x)) \<and>
   (distinct (map fst (appends JSON_stringify (mount JSON_parse available capacity storage) evs)) \<longrightarrow>
      distinct (map entry_id (transcriptHistory
        (run JSON_stringify evs (mount JSON_parse available capacity storage)))))"
proof -
  let ?w = "mount JSON_parse available capacity storage"
  have "history_ok [] (transcriptHistory ?w)"
    by (simp add: history_mount history_ok_Nil)
  then have "history_ok ([] @ appends JSON_stringify ?w evs)
     (transcriptHistory (run JSON_stringify evs ?w))"
    by (rule history_ok_run)
  then have ok: "history_ok (appends JSON_stringify ?w evs)
     (transcriptHistory (run JSON_stringify evs ?w))"
    by simp
  have "trim (entry_text e) \<noteq> [] \<and>
        (\<exists>x \<in> set (appends JSON_stringify ?w evs).
           entry_id e = Number_toString (fst x) \<and> entry_text e = snd x)"
    if "e \<in> set (transcriptHistory (run JSON_stringify evs ?w))" for e
  proof -
    from ok that obtain x where "x \<in> set (appends JSON_stringify ?w evs)"
      "e = entry x" "trim (snd x) \<noteq> []"
      unfolding history_ok_def by blast
    then show ?thesis by (auto simp: entry_def)
  qed
  moreover have "distinct (map entry_id (transcriptHistory (run JSON_stringify evs ?w)))"
    if "distinct (map fst (appends JSON_stringify ?w evs))"
    using ok that unfolding history_ok_def by blast
  ultimately show ?thesis by blast
qed

theorem history_entries_witness:
  "transcriptHistory
     (run stringify_User [StartListening, Render, RecognitionResult 0 ticking two_finals] idle) =
     [\<lparr>entry_id = js ''1700000000001'', entry_text = js '' world''\<rparr>,
      \<lparr>entry_id = js ''1700000000000'', entry_text = js ''hello''\<rparr>] \<and>
   appends stringify_User idle [StartListening, Render, RecognitionResult 0 ticking two_finals]
     = [(1700000000000, js ''hello''), (1700000000001, js '' world'')] \<and>
   distinct (map entry_id (transcriptHistory
     (run stringify_User [StartListening, Render, RecognitionResult 0 ticking two_finals] idle)))"
proof -
  have r: "run stringify_User [StartListening, Render, RecognitionResult 0 ticking two_finals] idle
             = step stringify_User listening (RecognitionResult 0 ticking two_finals)"
    by (simp only: run_def listening_def foldl_Cons foldl_Nil)
  have h: "transcriptHistory
     (run stringify_User [StartListening, Render, RecognitionResult 0 ticking two_finals] idle) =
     [\<lparr>entry_id = js ''1700000000001'', entry_text = js '' world''\<rparr>,
      \<lparr>entry_id = js ''1700000000000'', entry_text = js ''hello''\<rparr>]"
    by (simp only: r history_two_finals) (simp add: entry_def ticking_def stamp0 stamp1)
  have t: "trim (js ''hello'') \<noteq> [] \<and> trim (js '' world'') \<noteq> []"
    by (simp add: trim_def js_def isWhiteSpace_def)
  have l: "step stringify_User (step stringify_User idle StartListening) Render = listening"
    by (simp only: listening_def run_def foldl_Cons foldl_Nil)
  have "appends stringify_User idle [StartListening, Render, RecognitionResult 0 ticking two_finals]
          = appends_of idle StartListening @ appends_of (step stringify_User idle StartListening) Render @
            appends_of listening (RecognitionResult 0 ticking two_finals)"
    by (simp only: appends.simps l append_Nil2)
  also have "\<dots> = [(1700000000000, js ''hello''), (1700000000001, js '' world'')]"
    using t by (simp add: appends_of_def listening_recognizers finalized_two_finals ticking_def)
  finally have c:
    "appends stringify_User idle [StartListening, Render, RecognitionResult 0 ticking two_finals]
       = [(1700000000000, js ''hello''), (1700000000001, js '' world'')]" .
  note T = history_entries [of stringify_User
            "[StartListening, Render, RecognitionResult 0 ticking two_finals]"
            "parse_only (User_json alice) alice" True unlimited Map.empty, folded idle_def]
  have "distinct (map fst
      (appends stringify_User idle [StartListening, Render, RecognitionResult 0 ticking two_finals]))"
    by (simp only: c) simp
  with T have "distinct (map entry_id (transcriptHistory
     (run stringify_User [StartListening, Render, RecognitionResult 0 ticking two_finals] idle)))"
    by blast
  with h c show ?thesis by blast
qed

text \<open>
  A result event with two final results handled within one millisecond: both entries
  get the same id, and the second keeps its leading space.
\<close>

theorem history_entries_counterexample:
  "transcriptHistory (step stringify_User listening (RecognitionResult 0 same_millisecond two_finals)) =
     [\<lparr>entry_id = js ''1700000000000'', entry_text = js '' world''\<rparr>,
      \<lparr>entry_id = js ''1700000000000'', entry_text = js ''hello''\<rparr>] \<and>
   trim (js '' world'') \<noteq> js '' world'' \<and>
   \<not> distinct (map entry_id
     (transcriptHistory (step stringify_User listening (RecognitionResult 0 same_millisecond two_finals))))"
proof -
  have t: "trim (js '' world'') \<noteq> js '' world''"
    by (simp add: trim_def js_def isWhiteSpace_def)
  show ?thesis
    by (simp only: history_two_finals)
       (simp add: entry_def same_millisecond_def stamp0 t)
qed

section \<open>Auth session\<close>

text \<open>
  C9. Whenever \<open>login\<close> returns normally after an auth call that resolved with
  \<open>{data: {token: t, user: u}}\<close>, the token in memory is \<open>t\<close>, the user in memory is \<open>u\<close>,
  and the store holds \<open>t\<close> under \<open>token\<close> and the serialised \<open>u\<close> under \<open>user\<close>. It does
  return normally when the store accepts both writes and the user serialises. When the
  auth call fails, \<open>login\<close> throws the same error and the state is as before.
\<close>

theorem login_settles:
  "(authService_login e p = Inr \<lparr>data_token = t, data_user = u\<rparr> \<and>
    fst (login authService_login JSON_stringify e p w) = Inr () \<longrightarrow>
      token (snd (login authService_login JSON_stringify e p w)) = Some t \<and>
      user (snd (login authService_login JSON_stringify e p w)) = Some u \<and>
      localStorage (snd (login authService_login JSON_stringify e p w)) (js ''token'') = Some t \<and>
      (\<exists>s. JSON_stringify u = Inr s \<and>
           localStorage (snd (login authService_login JSON_stringify e p w)) (js ''user'') = Some s)) \<and>
   (authService_login e p = Inr \<lparr>data_token = t, data_user = u\<rparr> \<and>
    quota w (localStorage w) (js ''token'') t \<and> JSON_stringify u = Inr s' \<and>
    quota w ((localStorage w)(js ''token'' \<mapsto> t)) (js ''user'') s' \<longrightarrow>
      fst (login authService_login JSON_stringify e p w) = Inr ()) \<and>
   (authService_login e p = Inl err \<longrightarrow>
      login authService_login JSON_stringify e p w = (Inl err, w))"
  by (auto simp: login_def setItem_def js_def split: sum.splits if_splits)

theorem login_settles_witness:
  "password_service (js ''ada@example.org'') (js ''secret'')
     = Inr \<lparr>data_token = js ''abc'', data_user = alice\<rparr> \<and>
   fst (login password_service stringify_User (js ''ada@example.org'') (js ''secret'') idle)
     = Inr () \<and>
   token (snd (login password_service stringify_User (js ''ada@example.org'') (js ''secret'') idle))
     = Some (js ''abc'') \<and>
   user (snd (login password_service stringify_User (js ''ada@example.org'') (js ''secret'') idle))
     = Some alice \<and>
   localStorage
     (snd (login password_service stringify_User (js ''ada@example.org'') (js ''secret'') idle))
     (js ''token'') = Some (js ''abc'') \<and>
   localStorage
     (snd (login password_service stringify_User (js ''ada@example.org'') (js ''secret'') idle))
     (js ''user'') = Some (User_json alice) \<and>
   password_service (js ''ada@example.org'') (js ''guess'') = Inl (Rejected (js ''401'')) \<and>
   login password_service stringify_User (js ''ada@example.org'') (js ''guess'') idle
     = (Inl (Rejected (js ''401'')), idle)"
proof -
  have ok: "password_service (js ''ada@example.org'') (js ''secret'')
              = Inr \<lparr>data_token = js ''abc'', data_user = alice\<rparr>"
    by (simp add: password_service_def js_def)
  have ko: "password_service (js ''ada@example.org'') (js ''guess'') = Inl (Rejected (js ''401''))"
    by (simp add: password_service_def js_def)
  have q: "quota idle = unlimited"
    by (simp add: idle_def mount_def hydrate_def render_def initial_def js_def)
  have s: "stringify_User alice = Inr (User_json alice)"
    by (simp add: stringify_User_def)
  note yes = login_settles [of password_service "js ''ada@example.org''" "js ''secret''"
            "js ''abc''" alice stringify_User idle "User_json alice" "Rejected (js ''401'')"]
  note no = login_settles [of password_service "js ''ada@example.org''" "js ''guess''"
            "js ''abc''" alice stringify_User idle "User_json alice" "Rejected (js ''401'')"]
  from yes ok q s have r: "fst (login password_service stringify_User
      (js ''ada@example.org'') (js ''secret'') idle) = Inr ()"
    by (simp add: unlimited_def)
  from yes ok r s have
    "token (snd (login password_service stringify_User (js ''ada@example.org'') (js ''secret'') idle))
       = Some (js ''abc'') \<and>
     user (snd (login password_service stringify_User (js ''ada@example.org'') (js ''secret'') idle))
       = Some alice \<and>
     localStorage
       (snd (login password_service stringify_User (js ''ada@example.org'') (js ''secret'') idle))
       (js ''token'') = Some (js ''abc'') \<and>
     localStorage
       (snd (login password_service stringify_User (js ''ada@example.org'') (js ''secret'') idle))
       (js ''user'') = Some (User_json alice)"
    by auto
  moreover from no ko have
    "login password_service stringify_User (js ''ada@example.org'') (js ''guess'') idle
       = (Inl (Rejected (js ''401'')), idle)"
    by blast
  ultimately show ?thesis using ok ko r by blast
qed

text \<open>
  The failure that the store adds: the auth call resolves and the store refuses the
  token. \<open>login\<close> throws \<open>QuotaExceededError\<close> with token and user already set in memory
  and the store as it was.
\<close>

lemma login_store_refuses:
  "authService_login e p = Inr \<lparr>data_token = t, data_user = u\<rparr> \<Longrightarrow>
   \<not> quota w (localStorage w) (js ''token'') t \<Longrightarrow>
   login authService_login JSON_stringify e p w =
     (Inl QuotaExceededError, w\<lparr>token := Some t, user := Some u\<rparr>)"
  by (simp add: login_def setItem_def)

text \<open>
  C1. Hydration with both keys stored, the stored user not the literal \<open>undefined\<close>, and a
  stored user that does not parse. The code removes both keys but has already installed
  the stored token, so the provider reports an authenticated session without a user.
\<close>

theorem hydrate_parse_failure:
  assumes "localStorage w (js ''token'') = Some t" and "localStorage w (js ''user'') = Some u"
    and "t \<noteq> []" and "u \<noteq> []" and "u \<noteq> js ''undefined''" and "JSON_parse u = Inl err"
  shows "token (hydrate JSON_parse w) = Some t \<and> isAuthenticated (hydrate JSON_parse w) \<and>
         user (hydrate JSON_parse w) = user w \<and>
         localStorage (hydrate JSON_parse w) (js ''token'') = None \<and>
         localStorage (hydrate JSON_parse w) (js ''user'') = None"
  using assms by (simp add: hydrate_def isAuthenticated_def js_def)

theorem hydrate_parse_failure_witness:
  "token (mount (parse_only (User_json alice) alice) True unlimited corrupt_storage)
     = Some (js ''abc'') \<and>
   isAuthenticated (mount (parse_only (User_json alice) alice) True unlimited corrupt_storage
     :: User world) \<and>
   user (mount (parse_only (User_json alice) alice) True unlimited corrupt_storage) = None \<and>
   localStorage (mount (parse_only (User_json alice) alice) True unlimited corrupt_storage
     :: User world) (js ''token'') = None \<and>
   localStorage (mount (parse_only (User_json alice) alice) True unlimited corrupt_storage
     :: User world) (js ''user'') = None"
proof -
  let ?w = "render (initial True unlimited corrupt_storage) :: User world"
  have t: "localStorage ?w (js ''token'') = Some (js ''abc'')"
    by (simp add: render_def initial_def corrupt_storage_def js_def)
  have u: "localStorage ?w (js ''user'') = Some (js ''{'')"
    by (simp add: render_def initial_def corrupt_storage_def js_def)
  have p: "parse_only (User_json alice) alice (js ''{'') = Inl SyntaxError"
    by (simp add: parse_only_def User_json_def alice_def js_def)
  have n: "user ?w = None"
    by (simp add: render_def initial_def)
  show ?thesis
    using hydrate_parse_failure
            [of ?w "js ''abc''" "js ''{''" "parse_only (User_json alice) alice" SyntaxError]
          t u p n
    by (simp add: mount_def js_def)
qed

text \<open>
  C4, as the code has it. \<open>isAuthenticated\<close> is the truthiness of the token: it is true
  if and only if the token is neither \<open>null\<close> nor the empty string.
\<close>

theorem isAuthenticated_iff:
  "isAuthenticated w \<longleftrightarrow> (\<exists>t. token w = Some t \<and> t \<noteq> [])"
  by (cases "token w") (simp_all add: isAuthenticated_def)

text \<open>
  A login that the auth service answers with an empty token leaves a token that is not
  \<open>null\<close> and a provider that is not authenticated.
\<close>

theorem isAuthenticated_empty_token_counterexample:
  "token (step stringify_User idle
      (Login (js ''ada@example.org'') (js ''secret'') (Inr \<lparr>data_token = [], data_user = alice\<rparr>)))
     \<noteq> None \<and>
   \<not> isAuthenticated (step stringify_User idle
      (Login (js ''ada@example.org'') (js ''secret'') (Inr \<lparr>data_token = [], data_user = alice\<rparr>)))"
  by (simp add: login_def setItem_def stringify_User_def isAuthenticated_def
        split: if_splits)

section \<open>Listening\<close>

text \<open>
  C8. In an environment without the recognition capability, after any run of the
  provider, \<open>startListening\<close> returns normally, \<open>isListening\<close> is false afterwards, the
  transcript is unchanged, no recognition object exists or is started, and the only
  effect is the alert that recognition is unsupported.
\<close>

theorem startListening_unsupported:
  "fst (startListening (run JSON_stringify evs (mount JSON_parse False capacity storage))) = Inr () \<and>
   isListening (snd (startListening (run JSON_stringify evs (mount JSON_parse False capacity storage)))) = False \<and>
   transcript (snd (startListening (run JSON_stringify evs (mount JSON_parse False capacity storage))))
     = transcript (run JSON_stringify evs (mount JSON_parse False capacity storage)) \<and>
   recognizers (snd (startListening (run JSON_stringify evs (mount JSON_parse False capacity storage)))) = [] \<and>
   snd (startListening (run JSON_stringify evs (mount JSON_parse False capacity storage)))
     = (run JSON_stringify evs (mount JSON_parse False capacity storage))
         \<lparr>alerts := alerts (run JSON_stringify evs (mount JSON_parse False capacity storage)) @
            [js ''Speech recognition is not supported in this browser'']\<rparr>"
proof -
  have "absent (run JSON_stringify evs (mount JSON_parse False capacity storage))"
    by (rule absent_run) (rule absent_mount)
  then show ?thesis
    by (simp add: absent_def startListening_def)
qed

theorem startListening_unsupported_witness:
  "fst (startListening (run stringify_User [StartListening, Render, StopListening] unsupported))
     = Inr () \<and>
   isListening (snd (startListening
     (run stringify_User [StartListening, Render, StopListening] unsupported))) = False \<and>
   recognizers (snd (startListening
     (run stringify_User [StartListening, Render, StopListening] unsupported))) = [] \<and>
   alerts (snd (startListening
     (run stringify_User [StartListening, Render, StopListening] unsupported))) =
     [js ''Speech recognition is not supported in this browser'',
      js ''Speech recognition is not supported in this browser'']"
proof -
  let ?w = "run stringify_User [StartListening, Render, StopListening]
              (mount (parse_only (User_json alice) alice) False unlimited Map.empty)"
  let ?msg = "js ''Speech recognition is not supported in this browser''"
  have a: "alerts ?w = [?msg]"
    by (simp add: run_def mount_def hydrate_def render_def initial_def
          startListening_def stopListening_def)
  have T: "fst (startListening ?w) = Inr () \<and>
           isListening (snd (startListening ?w)) = False \<and>
           transcript (snd (startListening ?w)) = transcript ?w \<and>
           recognizers (snd (startListening ?w)) = [] \<and>
           snd (startListening ?w) = ?w\<lparr>alerts := alerts ?w @ [?msg]\<rparr>"
    by (rule startListening_unsupported)
  then have s: "snd (startListening ?w) = ?w\<lparr>alerts := alerts ?w @ [?msg]\<rparr>"
    by blast
  have "alerts (snd (startListening ?w)) = alerts ?w @ [?msg]"
    by (subst s) simp
  then have "alerts (snd (startListening ?w)) = [?msg, ?msg]"
    by (simp only: a append_Cons append_Nil)
  with T show ?thesis
    unfolding unsupported_def by blast
qed

text \<open>
  C5. The capability ends the session of the object that \<open>startListening\<close> started,
  while the listening flag is true. The handler \<open>onend\<close> of that object reads the
  \<open>isListening\<close> of the render that made it, which is false: it returns without a call of
  \<open>start\<close>, no recognition object is running afterwards, and \<open>isListening\<close> stays true.
\<close>

theorem onend_stale_closure:
  "isListening listening \<and>
   started (recognizers listening ! 0) \<and>
   \<not> stopping (recognizers listening ! 0) \<and>
   fst (onend 0 (ended 0 listening)) = Inr () \<and>
   \<not> started (recognizers (step stringify_User listening (RecognitionEnd 0)) ! 0) \<and>
   \<not> started (recognizers (step stringify_User listening (RecognitionEnd 0)) ! 1) \<and>
   isListening (step stringify_User listening (RecognitionEnd 0))"
  by (simp add: listening_recognizers listening_state onend_def ended_def)

end
